theory Spec2Isabelle
  imports Complex_Main
begin

section \<open>Time-Series Aggregator (App component)\<close>

text \<open>
  The React state of \<^verbatim>\<open>App\<close> that the count series depends on, with the three callbacks
  that write it: \<^verbatim>\<open>handlePeopleCountChange\<close>, \<^verbatim>\<open>handleTabChange\<close> and
  \<^verbatim>\<open>togglePeopleDetection\<close>. \<^verbatim>\<open>Date.now()\<close> is an integer number of milliseconds and is
  passed in as the argument \<open>now\<close>.
\<close>

record count_sample =
  timestamp :: int
  count :: nat

text \<open>
  \<^verbatim>\<open>detectionSessionId\<close> is the string \<^verbatim>\<open>'initial'\<close> or \<^verbatim>\<open>'session_' + Date.now()\<close>;
  \<open>Session t\<close> stands for the second form built from the instant \<open>t\<close>.
\<close>

datatype session_id = Initial | Session int

record app_state =
  activeVideoId :: string
  app_currentTime :: real
  peopleCount :: nat
  isPeopleDetectionEnabled :: bool
  showDetectionOverlay :: bool
  peopleCountHistory :: "count_sample list"
  detectionSessionId :: session_id

definition initial_app_state :: app_state where
  "initial_app_state =
     \<lparr>activeVideoId = ''football'', app_currentTime = 0, peopleCount = 0,
      isPeopleDetectionEnabled = False, showDetectionOverlay = True,
      peopleCountHistory = [], detectionSessionId = Initial\<rparr>"

text \<open>\<^verbatim>\<open>xs.slice(-n)\<close> for \<open>n > 0\<close>: the last \<open>n\<close> elements, all of them when there are fewer.\<close>

definition slice_last :: "nat \<Rightarrow> 'a list \<Rightarrow> 'a list" where
  "slice_last n xs = drop (length xs - n) xs"

text \<open>
  The test \<^verbatim>\<open>lastPoint && Math.abs(now - lastPoint.timestamp) < 50\<close>, where \<^verbatim>\<open>lastPoint\<close>
  is \<^verbatim>\<open>null\<close> for an empty series.
\<close>

definition within_jitter :: "int \<Rightarrow> count_sample list \<Rightarrow> bool" where
  "within_jitter now prev \<longleftrightarrow> prev \<noteq> [] \<and> \<bar>now - timestamp (last prev)\<bar> < 50"

text \<open>
  The updater passed to \<^verbatim>\<open>setPeopleCountHistory\<close>; \<^verbatim>\<open>prev.slice(0, -1)\<close> is \<open>butlast prev\<close>.
\<close>

definition update_history :: "int \<Rightarrow> nat \<Rightarrow> count_sample list \<Rightarrow> count_sample list" where
  "update_history now c prev =
     (let newPoint = \<lparr>timestamp = now, count = c\<rparr> in
      if within_jitter now prev
      then butlast prev @ [newPoint]
      else (let history = prev @ [newPoint] in
            if length history > 300 then slice_last 300 history else history))"

text \<open>
  \<^verbatim>\<open>handlePeopleCountChange\<close> is made by \<^verbatim>\<open>useCallback\<close> with the dependency
  \<^verbatim>\<open>[isPeopleDetectionEnabled]\<close>: every render in which the flag has changed makes a new
  instance, and an instance tests the flag of the render that made it, here the argument
  \<open>enabledAtRender\<close>. The updater it passes to \<^verbatim>\<open>setPeopleCountHistory\<close> gets the series
  of the current state. Whoever holds an instance can call it later: the polling loop
  of the detection component keeps the instance it was started with.
\<close>

definition handlePeopleCountChange :: "bool \<Rightarrow> int \<Rightarrow> nat \<Rightarrow> app_state \<Rightarrow> app_state" where
  "handlePeopleCountChange enabledAtRender now c s =
     (let s1 = s\<lparr>peopleCount := c\<rparr> in
      if enabledAtRender
      then s1\<lparr>peopleCountHistory := update_history now c (peopleCountHistory s)\<rparr>
      else s1)"

definition handleTabChange :: "string \<Rightarrow> app_state \<Rightarrow> app_state" where
  "handleTabChange vid s =
     s\<lparr>activeVideoId := vid, app_currentTime := 0, isPeopleDetectionEnabled := False,
       peopleCount := 0, peopleCountHistory := []\<rparr>"

definition togglePeopleDetection :: "int \<Rightarrow> app_state \<Rightarrow> app_state" where
  "togglePeopleDetection now s =
     (let newValue = \<not> isPeopleDetectionEnabled s;
          s1 = (if newValue
                then s\<lparr>detectionSessionId := Session now, peopleCountHistory := []\<rparr>
                else s)
      in s1\<lparr>isPeopleDetectionEnabled := newValue\<rparr>)"

definition toggleDetectionOverlay :: "app_state \<Rightarrow> app_state" where
  "toggleDetectionOverlay s = s\<lparr>showDetectionOverlay := \<not> showDetectionOverlay s\<rparr>"

text \<open>
  The callbacks as events, and a run of the component over a sequence of them. A count
  event names the instance that is called by the flag that instance has captured.
\<close>

datatype app_event =
    PeopleCountChange bool int nat
  | TabChange string
  | TogglePeopleDetection int
  | ToggleDetectionOverlay

fun app_step :: "app_state \<Rightarrow> app_event \<Rightarrow> app_state" where
  "app_step s (PeopleCountChange seen now c) = handlePeopleCountChange seen now c s"
| "app_step s (TabChange vid) = handleTabChange vid s"
| "app_step s (TogglePeopleDetection now) = togglePeopleDetection now s"
| "app_step s ToggleDetectionOverlay = toggleDetectionOverlay s"

definition app_run :: "app_event list \<Rightarrow> app_state \<Rightarrow> app_state" where
  "app_run evs s = foldl app_step s evs"

text \<open>The arrival times of the count events of a run, in order.\<close>

fun sample_times :: "app_event list \<Rightarrow> int list" where
  "sample_times [] = []"
| "sample_times (PeopleCountChange seen now c # evs) = now # sample_times evs"
| "sample_times (_ # evs) = sample_times evs"


text \<open>
  Properties of a series: consecutive samples are at least 50 apart, and no stored sample
  is later than the instant \<open>t\<close>.
\<close>

definition spaced :: "count_sample list \<Rightarrow> bool" where
  "spaced h \<longleftrightarrow> successively (\<lambda>a b. timestamp a + 50 \<le> timestamp b) h"

definition stamps_upto :: "int \<Rightarrow> count_sample list \<Rightarrow> bool" where
  "stamps_upto t h \<longleftrightarrow> (h \<noteq> [] \<longrightarrow> timestamp (last h) \<le> t)"

text \<open>Concrete states and runs used as test inputs.\<close>

definition full_series :: "count_sample list" where
  "full_series = map (\<lambda>i. \<lparr>timestamp = 1000 * int i, count = 1\<rparr>) [0..<300]"

definition full_state :: app_state where
  "full_state =
     initial_app_state\<lparr>isPeopleDetectionEnabled := True, peopleCountHistory := full_series\<rparr>"

definition one_sample_state :: app_state where
  "one_sample_state =
     app_run [TogglePeopleDetection 500, PeopleCountChange True 1000 3] initial_app_state"


definition sample_trace :: "app_event list" where
  "sample_trace =
     [TogglePeopleDetection 0, PeopleCountChange True 100 1, PeopleCountChange True 120 2,
      PeopleCountChange True 149 3, PeopleCountChange True 199 4, PeopleCountChange True 700 1,
      TogglePeopleDetection 800, PeopleCountChange False 900 7, TogglePeopleDetection 950,
      PeopleCountChange True 1000 2, PeopleCountChange True 1000 3, PeopleCountChange True 1050 4]"

section \<open>Connection Manager: the decoder's error handler (VideoPlayer component)\<close>

text \<open>
  The handler registered for \<^verbatim>\<open>Hls.Events.ERROR\<close>. Of the event's data it reads
  \<^verbatim>\<open>data.response\<close> (absent, or an object with the HTTP status \<^verbatim>\<open>code\<close>; a missing or zero
  code is falsy and is the number 0 here), \<^verbatim>\<open>data.fatal\<close> and \<^verbatim>\<open>data.type\<close>. The field
  \<open>details\<close> is the decoder's own internal description of the failure, which the handler
  only logs.
\<close>

datatype hls_error_type = NETWORK_ERROR | MEDIA_ERROR | KEY_SYSTEM_ERROR | MUX_ERROR | OTHER_ERROR

record hls_error_data =
  etype :: hls_error_type
  fatal :: bool
  response :: "nat option"
  details :: string

text \<open>
  The state the handler writes: the component's \<^verbatim>\<open>error\<close> and \<^verbatim>\<open>errorDetails\<close>, and the
  calls made on the decoder instance \<^verbatim>\<open>hls\<close>, counted for \<^verbatim>\<open>startLoad\<close> and
  \<^verbatim>\<open>recoverMediaError\<close> and recorded as a flag for \<^verbatim>\<open>destroy\<close>.
\<close>

record conn_state =
  connecting :: bool
  loading :: bool
  error :: "string option"
  errorDetails :: "string option"
  startLoadCalls :: nat
  recoverMediaErrorCalls :: nat
  hlsDestroyed :: bool

text \<open>The state once the connection delay has elapsed and the decoder is attached.\<close>

definition attached_state :: conn_state where
  "attached_state =
     \<lparr>connecting = False, loading = True, error = None, errorDetails = None,
      startLoadCalls = 0, recoverMediaErrorCalls = 0, hlsDestroyed = False\<rparr>"

text \<open>Decimal digits of a number, for the template string \<^verbatim>\<open>`HTTP error ${code}`\<close>.\<close>

definition digit_char :: "nat \<Rightarrow> char" where
  "digit_char d = ''0123456789'' ! d"

function show_nat :: "nat \<Rightarrow> string" where
  "show_nat n = (if n < 10 then [digit_char n] else show_nat (n div 10) @ [digit_char (n mod 10)])"
  by pat_completeness auto
termination
  by (relation "measure id") auto

declare show_nat.simps [simp del]

definition http_error_message :: "nat option \<Rightarrow> string" where
  "http_error_message resp =
     (case resp of
        None \<Rightarrow> ''Failed to load stream''
      | Some code \<Rightarrow>
          if code = 403
          then ''Access denied (403 Forbidden). This stream requires authorization or is not publicly accessible.''
          else if code = 404 then ''Stream not found (404). The URL may be incorrect.''
          else if code \<noteq> 0 then ''HTTP error '' @ show_nat code
          else ''Failed to load stream'')"

definition on_hls_error :: "hls_error_data \<Rightarrow> conn_state \<Rightarrow> conn_state" where
  "on_hls_error data s =
     (let errorMessage = http_error_message (response data) in
      if fatal data then
        (case etype data of
           NETWORK_ERROR \<Rightarrow>
             (let errorMessage = ''Network error: '' @ errorMessage in
              if response data = None \<or> response data \<noteq> Some 403
              then s\<lparr>startLoadCalls := startLoadCalls s + 1\<rparr>
              else s\<lparr>error := Some ''Stream Access Error'',
                     errorDetails := Some errorMessage,
                     hlsDestroyed := True\<rparr>)
         | MEDIA_ERROR \<Rightarrow> s\<lparr>recoverMediaErrorCalls := recoverMediaErrorCalls s + 1\<rparr>
         | _ \<Rightarrow> s\<lparr>error := Some ''Stream Error'',
                   errorDetails := Some errorMessage,
                   hlsDestroyed := True\<rparr>)
      else s)"

text \<open>
  The decoder delivers its error events to the handler one after the other; a destroyed
  decoder has no listeners left and delivers nothing.
\<close>

definition deliver_error :: "conn_state \<Rightarrow> hls_error_data \<Rightarrow> conn_state" where
  "deliver_error s data = (if hlsDestroyed s then s else on_hls_error data s)"

definition deliver_errors :: "hls_error_data list \<Rightarrow> conn_state \<Rightarrow> conn_state" where
  "deliver_errors ds s = foldl deliver_error s ds"

text \<open>Two failures used as test inputs: a network blip without a response, and a 403.\<close>

definition network_blip :: hls_error_data where
  "network_blip =
     \<lparr>etype = NETWORK_ERROR, fatal = True, response = None, details = ''fragLoadTimeOut''\<rparr>"

definition access_denied :: hls_error_data where
  "access_denied =
     \<lparr>etype = NETWORK_ERROR, fatal = True, response = Some 403, details = ''manifestLoadError''\<rparr>"

section \<open>Detection Scheduler, Model Wrapper and Overlay Renderer (PeopleDetection component)\<close>

text \<open>
  Numbers of the source that are not integers (scores, coordinates, sizes, the playback
  position) are real numbers here; the claims compare them and never depend on rounding.
\<close>

datatype backend = WebGL | CPU

text \<open>
  What one load attempt on a backend does: it succeeds, or it throws an error whose
  \<^verbatim>\<open>message\<close> may be missing. An attempt is \<^verbatim>\<open>tf.setBackend\<close> (with \<^verbatim>\<open>tf.ready\<close> for
  WebGL) followed by \<^verbatim>\<open>cocoSsd.load\<close>.
\<close>

datatype load_outcome = Loaded | LoadFailed "string option"

record detection =
  bbox :: "real \<times> real \<times> real \<times> real"
  class_name :: string
  score :: real

record video_el =
  readyState :: nat
  paused :: bool
  ended :: bool
  currentTime :: real
  videoWidth :: real
  videoHeight :: real

text \<open>The calls that paint on the canvas context, with their arguments.\<close>

datatype draw_call =
    StrokeRect real real real real
  | Arc real real real
  | FillText string real real

text \<open>
  A chain of ticks is one \<^verbatim>\<open>detectPeople\<close> closure calling itself through
  \<^verbatim>\<open>requestAnimationFrame\<close> and \<^verbatim>\<open>setTimeout\<close>. Where a chain stands: its requested
  animation frame was cancelled, an animation frame is requested (under the handle that
  \<^verbatim>\<open>requestAnimationFrame\<close> returned), a \<^verbatim>\<open>model.detect\<close> call is awaited, or the timer
  of the throttle is running (with the instant at which it is due).
\<close>

datatype loop_phase = Stopped | FramePending nat | Inferring | TimerPending int

text \<open>
  A chain belongs to the render in which the detection effect started it, and it keeps
  that render's \<^verbatim>\<open>drawDetections\<close>, which tests that render's \<^verbatim>\<open>showOverlay\<close>
  (\<open>seenOverlay\<close>). It also keeps that render's \<^verbatim>\<open>model\<close>, which is never null, and
  that render's \<^verbatim>\<open>onPeopleCountChange\<close>, made while detection was on.
\<close>

record chain =
  tick_phase :: loop_phase
  seenOverlay :: bool

text \<open>The calls of \<^verbatim>\<open>model.detect\<close> and their settlements, with their instants.\<close>

datatype inference_mark = Called int | Settled int

text \<open>
  The component: its React state (\<open>model\<close>, \<open>detections\<close>, \<open>isLoading\<close>,
  \<open>modelLoadError\<close>), its props (\<open>isEnabled\<close>, \<open>showOverlay\<close>), the canvas (whether
  \<^verbatim>\<open>canvasRef.current\<close> is set, its size, and what is painted on it since it was last
  cleared), whether a load started by the current run of the load effect is under way
  (its \<^verbatim>\<open>isMounted\<close> is still true), the \<^verbatim>\<open>showOverlay\<close> seen by the callback of the
  resize observer, the slot \<^verbatim>\<open>requestRef.current\<close> with the next handle the browser
  will give out, the chains of ticks that were started, and records of what the
  component did to the outside: the backends it tried to load a model on, the
  \<^verbatim>\<open>model.detect\<close> calls, and the counts passed to \<^verbatim>\<open>onPeopleCountChange\<close>. \<open>model\<close>
  holds the backend the resident model was loaded on.
\<close>

record pd_state =
  model :: "backend option"
  detections :: "detection list"
  isLoading :: bool
  modelLoadError :: "string option"
  isEnabled :: bool
  showOverlay :: bool
  canvasMounted :: bool
  canvasWidth :: real
  canvasHeight :: real
  surface :: "draw_call list"
  loadPending :: bool
  loadLog :: "backend list"
  resizeSeesOverlay :: bool
  requestRef :: "nat option"
  nextHandle :: nat
  chains :: "chain list"
  inferenceLog :: "inference_mark list"
  reportedCounts :: "nat list"

definition mounted_pd_state :: pd_state where
  "mounted_pd_state =
     \<lparr>model = None, detections = [], isLoading = True, modelLoadError = None,
      isEnabled = False, showOverlay = True, canvasMounted = True,
      canvasWidth = 640, canvasHeight = 360, surface = [], loadPending = False,
      loadLog = [], resizeSeesOverlay = True, requestRef = None, nextHandle = 1,
      chains = [], inferenceLog = [], reportedCounts = []\<rparr>"

subsection \<open>Model loading\<close>

text \<open>\<^verbatim>\<open>error?.message || fallbackText\<close>: a missing or empty message gives the fallback.\<close>

definition or_default :: "string option \<Rightarrow> string \<Rightarrow> string" where
  "or_default m d = (case m of None \<Rightarrow> d | Some t \<Rightarrow> if t = [] then d else t)"

text \<open>
  \<^verbatim>\<open>initTensorFlowAndLoadModel\<close> run to its end, for a load whose \<^verbatim>\<open>isMounted\<close> stays
  true. \<open>attempt\<close> gives the outcome of the load attempt on each backend.
\<close>

definition initTensorFlowAndLoadModel :: "(backend \<Rightarrow> load_outcome) \<Rightarrow> pd_state \<Rightarrow> pd_state" where
  "initTensorFlowAndLoadModel attempt s =
     (let s1 = s\<lparr>isLoading := True, modelLoadError := None, loadLog := loadLog s @ [WebGL]\<rparr> in
      case attempt WebGL of
        Loaded \<Rightarrow> s1\<lparr>model := Some WebGL, isLoading := False\<rparr>
      | LoadFailed msg \<Rightarrow>
          (let s2 = s1\<lparr>modelLoadError := Some (or_default msg ''Failed to load detection model''),
                       loadLog := loadLog s1 @ [CPU]\<rparr> in
           case attempt CPU of
             Loaded \<Rightarrow> s2\<lparr>model := Some CPU, isLoading := False, modelLoadError := None\<rparr>
           | LoadFailed msg2 \<Rightarrow>
               s2\<lparr>isLoading := False,
                  modelLoadError :=
                    Some (or_default msg2 ''Failed to load detection model with fallback'')\<rparr>))"

text \<open>Whether a load with these outcomes calls \<^verbatim>\<open>setModel\<close>.\<close>

definition sets_model :: "(backend \<Rightarrow> load_outcome) \<Rightarrow> bool" where
  "sets_model attempt \<longleftrightarrow> attempt WebGL = Loaded \<or> attempt CPU = Loaded"

subsection \<open>Drawing\<close>

text \<open>\<^verbatim>\<open>Math.round\<close> rounds to the nearest integer, halves upwards.\<close>

definition js_round :: "real \<Rightarrow> int" where
  "js_round x = \<lfloor>x + 1 / 2\<rfloor>"

definition show_int :: "int \<Rightarrow> string" where
  "show_int i = (if i < 0 then ''-'' @ show_nat (nat (- i)) else show_nat (nat i))"

text \<open>The body of the \<^verbatim>\<open>forEach\<close> of \<^verbatim>\<open>drawDetections\<close>: box, centre marker, label.\<close>

definition draw_detection :: "real \<Rightarrow> real \<Rightarrow> detection \<Rightarrow> draw_call list" where
  "draw_detection scaleX scaleY d =
     (case bbox d of (x, y, width, height) \<Rightarrow>
        (let scaledX = x * scaleX;
             scaledY = y * scaleY;
             scaledWidth = width * scaleX;
             scaledHeight = height * scaleY;
             centerX = scaledX + scaledWidth / 2;
             centerY = scaledY + scaledHeight / 2;
             percent = js_round (score d * 100)
         in [StrokeRect scaledX scaledY scaledWidth scaledHeight,
             Arc centerX centerY 5,
             FillText (''Person '' @ show_int percent @ ''%'') scaledX (scaledY - 5)]))"

definition render :: "pd_state \<Rightarrow> video_el \<Rightarrow> detection list \<Rightarrow> draw_call list" where
  "render s v dets =
     concat (map (draw_detection (canvasWidth s / videoWidth v) (canvasHeight s / videoHeight v)) dets)"

text \<open>
  \<^verbatim>\<open>drawDetections\<close>, for a mounted video element and an available 2D context. Every
  render makes a new \<^verbatim>\<open>drawDetections\<close>, which tests the \<^verbatim>\<open>showOverlay\<close> of its own
  render: \<open>seen\<close> is that value. Canvas and video are read through refs, so their
  current sizes count. Without a canvas it returns at once; otherwise it clears the
  canvas and, when its render had the overlay shown, paints every detection.
\<close>

definition drawDetections :: "bool \<Rightarrow> video_el \<Rightarrow> detection list \<Rightarrow> pd_state \<Rightarrow> pd_state" where
  "drawDetections seen v dets s =
     (if \<not> canvasMounted s then s
      else if \<not> seen then s\<lparr>surface := []\<rparr>
      else s\<lparr>surface := render s v dets\<rparr>)"

text \<open>
  The effect with dependencies \<^verbatim>\<open>[isEnabled, showOverlay, detections]\<close>. It runs in the
  render that changed one of them, with that render's \<^verbatim>\<open>drawDetections\<close>.
\<close>

definition overlay_effect :: "video_el \<Rightarrow> pd_state \<Rightarrow> pd_state" where
  "overlay_effect v s =
     (if (\<not> isEnabled s \<or> \<not> showOverlay s) \<and> canvasMounted s then s\<lparr>surface := []\<rparr>
      else if isEnabled s \<and> showOverlay s \<and> detections s \<noteq> []
      then drawDetections (showOverlay s) v (detections s) s
      else s)"

text \<open>
  A change of the prop \<^verbatim>\<open>showOverlay\<close>: of the effects, only the one above depends on
  it. The detection effect and the resize effect do not run again, so the chains and the
  callback of the resize observer keep the \<^verbatim>\<open>drawDetections\<close> they have.
\<close>

definition showOverlay_changed :: "video_el \<Rightarrow> bool \<Rightarrow> pd_state \<Rightarrow> pd_state" where
  "showOverlay_changed v b s =
     (if b = showOverlay s then s else overlay_effect v (s\<lparr>showOverlay := b\<rparr>))"

definition toggle_overlay :: "video_el \<Rightarrow> pd_state \<Rightarrow> pd_state" where
  "toggle_overlay v s = showOverlay_changed v (\<not> showOverlay s) s"

text \<open>
  The callback of the resize observer, with the video's new displayed size. The resize
  effect has the dependencies \<^verbatim>\<open>[videoRef, detections]\<close>: its callback is that of the
  render in which \<^verbatim>\<open>detections\<close> last changed, with that render's detections (the
  current ones) and that render's \<^verbatim>\<open>drawDetections\<close>.
\<close>

definition on_resize :: "real \<Rightarrow> real \<Rightarrow> video_el \<Rightarrow> pd_state \<Rightarrow> pd_state" where
  "on_resize clientWidth clientHeight v s =
     (if \<not> canvasMounted s then s
      else (let s1 = s\<lparr>canvasWidth := clientWidth, canvasHeight := clientHeight\<rparr> in
            if detections s \<noteq> []
            then drawDetections (resizeSeesOverlay s) v (detections s) s1
            else s1))"

subsection \<open>The polling loop\<close>

text \<open>The filter \<^verbatim>\<open>pred.class === 'person' && pred.score > 0.5\<close>.\<close>

definition is_person :: "detection \<Rightarrow> bool" where
  "is_person pred \<longleftrightarrow> class_name pred = ''person'' \<and> score pred > 0.5"

text \<open>The test \<^verbatim>\<open>!video.paused && !video.ended && video.currentTime > 0\<close>.\<close>

definition is_playing :: "video_el \<Rightarrow> bool" where
  "is_playing v \<longleftrightarrow> \<not> paused v \<and> \<not> ended v \<and> currentTime v > 0"

text \<open>Writing the phase of the chain with index \<open>i\<close>.\<close>

definition set_phase :: "nat \<Rightarrow> loop_phase \<Rightarrow> pd_state \<Rightarrow> pd_state" where
  "set_phase i p s = s\<lparr>chains := (chains s)[i := (chains s ! i)\<lparr>tick_phase := p\<rparr>]\<rparr>"

text \<open>\<^verbatim>\<open>requestRef.current = requestAnimationFrame(detectPeople)\<close>, by the chain \<open>i\<close>.\<close>

definition request_frame :: "nat \<Rightarrow> pd_state \<Rightarrow> pd_state" where
  "request_frame i s =
     (set_phase i (FramePending (nextHandle s)) s)
       \<lparr>requestRef := Some (nextHandle s), nextHandle := nextHandle s + 1\<rparr>"

text \<open>
  \<^verbatim>\<open>detectPeople\<close> is an asynchronous function; it is cut into the part that runs when the
  tick starts, at the instant \<open>t\<close>, up to the \<^verbatim>\<open>await\<close>, and the part that runs when the
  awaited call has settled. A tick that is not ready requests the next animation frame at
  once. A tick that does not call the model goes on to the timer directly. The model of
  the chain's render is not null, and the state's model never becomes null again.
\<close>

definition detectPeople :: "nat \<Rightarrow> int \<Rightarrow> video_el \<Rightarrow> pd_state \<Rightarrow> pd_state" where
  "detectPeople i t v s =
     (if readyState v \<noteq> 4 \<or> model s = None \<or> \<not> canvasMounted s
      then request_frame i s
      else if is_playing v
      then (set_phase i Inferring s)\<lparr>inferenceLog := inferenceLog s @ [Called t]\<rparr>
      else set_phase i (TimerPending (t + 500)) s)"

text \<open>
  What \<^verbatim>\<open>model.detect\<close> settles with: the predictions, or a rejection (which the
  \<^verbatim>\<open>catch\<close> logs).
\<close>

datatype detect_result = Predictions "detection list" | DetectFailed

text \<open>
  The rest of the tick, at the instant \<open>t\<close> when the call has settled, for a chain whose
  \<^verbatim>\<open>drawDetections\<close> sees \<open>seen\<close> and that was given \<^verbatim>\<open>onPeopleCountChange\<close>.
  \<^verbatim>\<open>setDetections\<close> with the new array makes React render again, after the tick has
  painted: the resize effect runs again and its callback is now of this render, and the
  overlay effect runs.
\<close>

definition after_detect :: "bool \<Rightarrow> int \<Rightarrow> video_el \<Rightarrow> detect_result \<Rightarrow> pd_state \<Rightarrow> pd_state" where
  "after_detect seen t v r s =
     (let s1 =
        (case r of
           Predictions predictions \<Rightarrow>
             (let peopleDetections = filter is_person predictions;
                  s2 = s\<lparr>detections := peopleDetections,
                         reportedCounts := reportedCounts s @ [length peopleDetections]\<rparr>;
                  s3 = drawDetections seen v peopleDetections s2
              in overlay_effect v (s3\<lparr>resizeSeesOverlay := showOverlay s3\<rparr>))
         | DetectFailed \<Rightarrow> s)
      in s1\<lparr>inferenceLog := inferenceLog s1 @ [Settled t]\<rparr>)"

text \<open>
  The cleanup of the detection effect (and of the load effect):
  \<^verbatim>\<open>if (requestRef.current) { cancelAnimationFrame(requestRef.current); requestRef.current = null }\<close>.
  Cancelling stops the chain whose requested frame has that handle; a handle whose frame
  has fired already cancels nothing. A running timer and an awaited call are not touched.
\<close>

definition cancel_frame :: "pd_state \<Rightarrow> pd_state" where
  "cancel_frame s =
     (case requestRef s of
        None \<Rightarrow> s
      | Some h \<Rightarrow>
          s\<lparr>chains := map (\<lambda>c. if tick_phase c = FramePending h then c\<lparr>tick_phase := Stopped\<rparr> else c)
                         (chains s),
            requestRef := None\<rparr>)"

text \<open>
  The body of the detection effect, with dependencies
  \<^verbatim>\<open>[model, isEnabled, videoRef, onPeopleCountChange]\<close>, for a mounted video: behind its
  guard it makes a new \<^verbatim>\<open>detectPeople\<close> closure, a new chain, and calls it once.
\<close>

definition detection_effect :: "int \<Rightarrow> video_el \<Rightarrow> pd_state \<Rightarrow> pd_state" where
  "detection_effect t v s =
     (if model s = None \<or> \<not> isEnabled s then s
      else detectPeople (length (chains s)) t v
             (s\<lparr>chains := chains s @ [\<lparr>tick_phase = Stopped, seenOverlay = showOverlay s\<rparr>]\<rparr>))"

text \<open>
  A change of the prop \<^verbatim>\<open>isEnabled\<close> (with it \<^verbatim>\<open>onPeopleCountChange\<close> changes, in the
  same render). React runs the cleanups of the effects that depend on it, then their
  bodies in the order of the source: the load effect, which starts a load when detection
  is on (up to its first \<^verbatim>\<open>await\<close>) and whose cleanup makes a load under way drop its
  result; the detection effect; the overlay effect.
\<close>

definition isEnabled_changed :: "int \<Rightarrow> video_el \<Rightarrow> bool \<Rightarrow> pd_state \<Rightarrow> pd_state" where
  "isEnabled_changed t v b s =
     (if b = isEnabled s then s
      else (let s1 = cancel_frame (s\<lparr>isEnabled := b\<rparr>);
                s2 = (if b then s1\<lparr>isLoading := True, modelLoadError := None, loadPending := True\<rparr>
                      else s1\<lparr>loadPending := False\<rparr>);
                s3 = detection_effect t v s2
            in overlay_effect v s3))"

text \<open>
  The load that is under way comes to its end at the instant \<open>t\<close>. When it has called
  \<^verbatim>\<open>setModel\<close>, the state \<^verbatim>\<open>model\<close> is a new object and the detection effect runs again:
  its cleanup, then its body.
\<close>

definition load_settled :: "int \<Rightarrow> video_el \<Rightarrow> (backend \<Rightarrow> load_outcome) \<Rightarrow> pd_state \<Rightarrow> pd_state" where
  "load_settled t v attempt s =
     (if \<not> loadPending s then s
      else (let s1 = (initTensorFlowAndLoadModel attempt s)\<lparr>loadPending := False\<rparr> in
            if sets_model attempt then detection_effect t v (cancel_frame s1) else s1))"

text \<open>
  What can happen to the mounted component. A callback fires only if it is pending: the
  animation frame of a chain when it is requested and not cancelled, the settlement
  when the chain awaits a call, the timer when it runs and is due
  (\<^verbatim>\<open>setTimeout(f, 500)\<close> never fires early). Each event carries the instant at which it
  happens; the events of a chain name it by its index.
\<close>

datatype pd_event =
    EnabledChanged int video_el bool
  | LoadSettled int video_el "backend \<Rightarrow> load_outcome"
  | FrameFired int nat video_el
  | DetectSettled int nat video_el detect_result
  | TimerFired int nat
  | OverlayToggled int video_el
  | Resized int real real video_el

definition phase_of :: "pd_state \<Rightarrow> nat \<Rightarrow> loop_phase" where
  "phase_of s i = (if i < length (chains s) then tick_phase (chains s ! i) else Stopped)"

fun pd_step :: "pd_state \<Rightarrow> pd_event \<Rightarrow> pd_state" where
  "pd_step s (EnabledChanged t v b) = isEnabled_changed t v b s"
| "pd_step s (LoadSettled t v attempt) = load_settled t v attempt s"
| "pd_step s (FrameFired t i v) =
     (case phase_of s i of FramePending h \<Rightarrow> detectPeople i t v s | _ \<Rightarrow> s)"
| "pd_step s (DetectSettled t i v r) =
     (if phase_of s i = Inferring
      then set_phase i (TimerPending (t + 500)) (after_detect (seenOverlay (chains s ! i)) t v r s)
      else s)"
| "pd_step s (TimerFired t i) =
     (case phase_of s i of
        TimerPending due \<Rightarrow> if due \<le> t then request_frame i s else s
      | _ \<Rightarrow> s)"
| "pd_step s (OverlayToggled t v) = toggle_overlay v s"
| "pd_step s (Resized t w h v) = on_resize w h v s"

definition pd_run :: "pd_event list \<Rightarrow> pd_state \<Rightarrow> pd_state" where
  "pd_run evs s = foldl pd_step s evs"

text \<open>
  Single flight with throttle, read off the record of calls from the latest entry
  backwards: entries alternate, starting with a call; a call settles no earlier than it
  was made; and a call that follows a settlement comes at least 500 later.
\<close>

fun alternating_back :: "inference_mark list \<Rightarrow> bool" where
  "alternating_back [] = True"
| "alternating_back [Called t] = True"
| "alternating_back (Settled u # Called t # older) = (t \<le> u \<and> alternating_back (Called t # older))"
| "alternating_back (Called t # Settled u # older) = (u + 500 \<le> t \<and> alternating_back (Settled u # older))"
| "alternating_back _ = False"

definition single_flight :: "inference_mark list \<Rightarrow> bool" where
  "single_flight marks \<longleftrightarrow> alternating_back (rev marks)"

text \<open>The number of calls that have not settled yet.\<close>

definition outstanding :: "inference_mark list \<Rightarrow> int" where
  "outstanding marks =
     int (length (filter (\<lambda>m. case m of Called t \<Rightarrow> True | Settled t \<Rightarrow> False) marks)) -
     int (length (filter (\<lambda>m. case m of Called t \<Rightarrow> False | Settled t \<Rightarrow> True) marks))"

subsection \<open>Concrete inputs for the detection component\<close>

definition all_backends_load :: "backend \<Rightarrow> load_outcome" where
  "all_backends_load b = Loaded"

definition no_backend_loads :: "backend \<Rightarrow> load_outcome" where
  "no_backend_loads b = LoadFailed (Some ''WebGL is not supported on this device'')"

definition a_person :: detection where
  "a_person = \<lparr>bbox = (100, 50, 40, 80), class_name = ''person'', score = 0.9\<rparr>"

definition a_faint_person :: detection where
  "a_faint_person = \<lparr>bbox = (300, 60, 30, 70), class_name = ''person'', score = 0.5\<rparr>"

definition a_dog :: detection where
  "a_dog = \<lparr>bbox = (10, 20, 30, 40), class_name = ''dog'', score = 0.95\<rparr>"

definition playing_video :: video_el where
  "playing_video =
     \<lparr>readyState = 4, paused = False, ended = False, currentTime = 12,
      videoWidth = 1280, videoHeight = 720\<rparr>"

text \<open>
  Detection is turned on for a playing stream, the model loads on WebGL, and the first
  tick finds a dog and a person.
\<close>

definition first_ticks :: "pd_event list" where
  "first_ticks =
     [EnabledChanged 0 playing_video True,
      LoadSettled 800 playing_video all_backends_load,
      DetectSettled 900 0 playing_video (Predictions [a_dog, a_person])]"

definition watching_state :: pd_state where
  "watching_state = pd_run first_ticks mounted_pd_state"

text \<open>
  Then detection is turned off at 1000, while the timer of the chain runs; the timer
  fires when it is due, and the chain ticks once more.
\<close>

definition off_ticks :: "pd_event list" where
  "off_ticks =
     [EnabledChanged 1000 playing_video False,
      TimerFired 1400 0,
      FrameFired 1416 0 playing_video,
      DetectSettled 1480 0 playing_video (Predictions [a_person])]"

text \<open>
  Detection is turned on again at 1500, and the load that this starts comes to its end
  at 1550: with a model from WebGL, or with both backends failing.
\<close>

definition reenabled_ticks :: "pd_event list" where
  "reenabled_ticks =
     [EnabledChanged 1500 playing_video True,
      LoadSettled 1550 playing_video all_backends_load]"

definition reenabled_failing_ticks :: "pd_event list" where
  "reenabled_failing_ticks =
     [EnabledChanged 1500 playing_video True,
      LoadSettled 1550 playing_video no_backend_loads]"

text \<open>
  With detection on and the person painted, the overlay is switched off at 2000 and the
  video element is resized at 2100.
\<close>

definition overlay_off_ticks :: "pd_event list" where
  "overlay_off_ticks = [OverlayToggled 2000 playing_video]"

definition overlay_off_resize_ticks :: "pd_event list" where
  "overlay_off_resize_ticks =
     [OverlayToggled 2000 playing_video, Resized 2100 320 180 playing_video]"

definition overlay_off_on_ticks :: "pd_event list" where
  "overlay_off_on_ticks =
     [OverlayToggled 2000 playing_video, OverlayToggled 2100 playing_video]"

subsection \<open>Properties of the component's state used in the claims\<close>

text \<open>
  Every paint call in a list is one of the paint calls of some detection that passes the
  filter, at some scale; and a state in which every detection has passed the filter and
  the canvas holds only such paint calls.
\<close>

definition from_people :: "draw_call list \<Rightarrow> bool" where
  "from_people calls \<longleftrightarrow>
     (\<forall>c \<in> set calls. \<exists>d scaleX scaleY. is_person d \<and> c \<in> set (draw_detection scaleX scaleY d))"

definition people_only :: "pd_state \<Rightarrow> bool" where
  "people_only s \<longleftrightarrow>
     canvasMounted s \<and> (\<forall>d \<in> set (detections s). is_person d) \<and> from_people (surface s)"

section \<open>Aggregator: lemmas and claims\<close>

lemma update_history_length: "length prev \<le> 300 \<Longrightarrow> length (update_history now c prev) \<le> 300"
  by (auto simp: update_history_def within_jitter_def slice_last_def Let_def)

lemma app_step_length:
  "length (peopleCountHistory s) \<le> 300 \<Longrightarrow> length (peopleCountHistory (app_step s e)) \<le> 300"
  by (cases e)
     (simp_all add: handlePeopleCountChange_def handleTabChange_def togglePeopleDetection_def
        toggleDetectionOverlay_def Let_def update_history_length)

lemma app_run_length:
  "length (peopleCountHistory s) \<le> 300 \<Longrightarrow> length (peopleCountHistory (app_run evs s)) \<le> 300"
  unfolding app_run_def
  by (induction evs arbitrary: s) (simp_all add: app_step_length)

lemma update_history_append:
  "\<not> within_jitter now prev \<Longrightarrow>
   update_history now c prev = drop (Suc (length prev) - 300) (prev @ [\<lparr>timestamp = now, count = c\<rparr>])"
  by (simp add: update_history_def slice_last_def Let_def)

lemma successively_drop: "successively P xs \<Longrightarrow> successively P (drop n xs)"
proof -
  assume a: "successively P xs"
  have "xs = take n xs @ drop n xs" by simp
  then have "successively P (take n xs @ drop n xs)" using a by simp
  then show ?thesis unfolding successively_append_iff by blast
qed

lemma spaced_snoc:
  "spaced (xs @ [p]) \<longleftrightarrow> spaced xs \<and> (xs = [] \<or> timestamp (last xs) + 50 \<le> timestamp p)"
  by (auto simp: spaced_def successively_append_iff)

lemma spaced_update:
  assumes "spaced prev" and "prev \<noteq> [] \<Longrightarrow> timestamp (last prev) \<le> now"
  shows "spaced (update_history now c prev)"
proof (cases "within_jitter now prev")
  case True
  then have ne: "prev \<noteq> []" by (simp add: within_jitter_def)
  then have split: "prev = butlast prev @ [last prev]" by simp
  have sp: "spaced (butlast prev @ [last prev])" using assms(1) split by simp
  have "spaced (butlast prev @ [\<lparr>timestamp = now, count = c\<rparr>])"
    using sp assms(2)[OF ne] unfolding spaced_snoc by auto
  then show ?thesis using True by (simp add: update_history_def)
next
  case False
  have "spaced (prev @ [\<lparr>timestamp = now, count = c\<rparr>])"
  proof (cases "prev = []")
    case True
    then show ?thesis by (simp add: spaced_def)
  next
    case ne: False
    have "timestamp (last prev) \<le> now" using assms(2) ne by simp
    moreover have "\<not> \<bar>now - timestamp (last prev)\<bar> < 50"
      using False ne by (simp add: within_jitter_def)
    ultimately have "timestamp (last prev) + 50 \<le> now" by linarith
    then show ?thesis using assms(1) unfolding spaced_snoc by simp
  qed
  then have "spaced (drop (Suc (length prev) - 300) (prev @ [\<lparr>timestamp = now, count = c\<rparr>]))"
    unfolding spaced_def by (rule successively_drop)
  then show ?thesis using False by (simp add: update_history_append)
qed

lemma update_history_last:
  "update_history now c prev \<noteq> [] \<and> timestamp (last (update_history now c prev)) = now"
  by (auto simp: update_history_def slice_last_def Let_def)

lemma spaced_step:
  assumes "spaced (peopleCountHistory s)"
    and "\<And>seen now c. e = PeopleCountChange seen now c \<Longrightarrow> peopleCountHistory s \<noteq> [] \<Longrightarrow>
           timestamp (last (peopleCountHistory s)) \<le> now"
  shows "spaced (peopleCountHistory (app_step s e))"
proof (cases e)
  case (PeopleCountChange seen now c)
  then show ?thesis using assms
    by (simp add: handlePeopleCountChange_def Let_def spaced_update)
next
  case (TabChange vid)
  then show ?thesis by (simp add: handleTabChange_def spaced_def)
next
  case (TogglePeopleDetection now)
  then show ?thesis using assms(1)
    by (simp add: togglePeopleDetection_def Let_def spaced_def)
next
  case ToggleDetectionOverlay
  then show ?thesis using assms(1) by (simp add: toggleDetectionOverlay_def)
qed

lemma last_stamp_step:
  assumes "stamps_upto t (peopleCountHistory s)"
    and "\<And>seen now c. e = PeopleCountChange seen now c \<Longrightarrow> now \<le> t"
  shows "stamps_upto t (peopleCountHistory (app_step s e))"
proof (cases e)
  case (PeopleCountChange seen now c)
  then show ?thesis using assms update_history_last[of now c "peopleCountHistory s"]
    by (simp add: handlePeopleCountChange_def Let_def stamps_upto_def)
next
  case (TabChange vid)
  then show ?thesis by (simp add: handleTabChange_def stamps_upto_def)
next
  case (TogglePeopleDetection now)
  then show ?thesis using assms(1)
    by (simp add: togglePeopleDetection_def Let_def stamps_upto_def)
next
  case ToggleDetectionOverlay
  then show ?thesis using assms(1) by (simp add: toggleDetectionOverlay_def)
qed

lemma sample_times_Cons:
  "sample_times (e # evs) = sample_times [e] @ sample_times evs"
  by (cases e) simp_all

lemma spaced_run_step:
  assumes sp: "spaced (peopleCountHistory s)"
    and srt: "sorted (sample_times (e # evs))"
    and upto: "\<forall>t \<in> set (sample_times (e # evs)). stamps_upto t (peopleCountHistory s)"
  shows "spaced (peopleCountHistory (app_step s e))"
    and "sorted (sample_times evs)"
    and "\<forall>t \<in> set (sample_times evs). stamps_upto t (peopleCountHistory (app_step s e))"
proof -
  show "sorted (sample_times evs)"
    using srt by (subst (asm) sample_times_Cons) (simp add: sorted_append)
  show "spaced (peopleCountHistory (app_step s e))"
  proof (rule spaced_step[OF sp])
    fix seen now c
    assume "e = PeopleCountChange seen now c" and "peopleCountHistory s \<noteq> []"
    then show "timestamp (last (peopleCountHistory s)) \<le> now"
      using upto by (simp add: stamps_upto_def)
  qed
  show "\<forall>t \<in> set (sample_times evs). stamps_upto t (peopleCountHistory (app_step s e))"
  proof
    fix t assume t: "t \<in> set (sample_times evs)"
    show "stamps_upto t (peopleCountHistory (app_step s e))"
    proof (rule last_stamp_step)
      show "stamps_upto t (peopleCountHistory s)"
        using upto t by (subst (asm) sample_times_Cons) simp
    next
      fix seen now c assume "e = PeopleCountChange seen now c"
      then show "now \<le> t" using srt t by simp
    qed
  qed
qed

lemma spaced_run:
  assumes "spaced (peopleCountHistory s)"
    and "sorted (sample_times evs)"
    and "\<forall>t \<in> set (sample_times evs). stamps_upto t (peopleCountHistory s)"
  shows "spaced (peopleCountHistory (app_run evs s))"
  using assms
proof (induction evs arbitrary: s)
  case Nil
  then show ?case by (simp add: app_run_def)
next
  case (Cons e evs)
  have "spaced (peopleCountHistory (app_run evs (app_step s e)))"
    by (rule Cons.IH) (rule spaced_run_step[OF Cons.prems])+
  then show ?case by (simp add: app_run_def)
qed

lemma spaced_strictly_sorted: "spaced h \<Longrightarrow> sorted_wrt (<) (map timestamp h)"
proof -
  assume "spaced h"
  then have "successively (\<lambda>a b. timestamp a < timestamp b) h"
    unfolding spaced_def by (rule successively_mono) auto
  then have "sorted_wrt (\<lambda>a b. timestamp a < timestamp b) h"
    by (subst (asm) successively_conv_sorted_wrt) (auto simp: transp_def)
  then show ?thesis by (simp add: sorted_wrt_map)
qed






text \<open>
  Claim C5. Starting from the empty series of a fresh component, after any sequence of
  events the retained series holds at most 300 samples, and every single event keeps a
  series of at most 300 samples within that bound. When a sample is appended (by a
  callback made while detection is on, with no replacement), the new series is the
  appended series with a prefix dropped: only the oldest samples leave,
  \<open>Suc (length prev) - 300\<close> of them.
\<close>

theorem series_capacity:
  "length (peopleCountHistory (app_run evs initial_app_state)) \<le> 300 \<and>
   (length (peopleCountHistory s) \<le> 300 \<longrightarrow>
      length (peopleCountHistory (app_step s e)) \<le> 300) \<and>
   (enabledAtRender \<and> \<not> within_jitter now (peopleCountHistory s) \<longrightarrow>
      peopleCountHistory (handlePeopleCountChange enabledAtRender now c s) =
        drop (Suc (length (peopleCountHistory s)) - 300)
          (peopleCountHistory s @ [\<lparr>timestamp = now, count = c\<rparr>]))"
proof (intro conjI impI)
  show "length (peopleCountHistory (app_run evs initial_app_state)) \<le> 300"
    by (rule app_run_length) (simp add: initial_app_state_def)
next
  assume "length (peopleCountHistory s) \<le> 300"
  then show "length (peopleCountHistory (app_step s e)) \<le> 300" by (rule app_step_length)
next
  assume "enabledAtRender \<and> \<not> within_jitter now (peopleCountHistory s)"
  then show "peopleCountHistory (handlePeopleCountChange enabledAtRender now c s) =
        drop (Suc (length (peopleCountHistory s)) - 300)
          (peopleCountHistory s @ [\<lparr>timestamp = now, count = c\<rparr>])"
    by (simp add: handlePeopleCountChange_def Let_def update_history_append)
qed

lemma full_series_length: "length full_series = 300"
  by (simp add: full_series_def)

lemma full_series_last: "last full_series = \<lparr>timestamp = 299000, count = 1\<rparr>"
  by (simp add: full_series_def last_map)

theorem series_capacity_witness:
  "length (peopleCountHistory full_state) \<le> 300 \<and>
   isPeopleDetectionEnabled full_state \<and> \<not> within_jitter 300000 (peopleCountHistory full_state) \<and>
   length (peopleCountHistory (app_step full_state (PeopleCountChange True 300000 2))) \<le> 300 \<and>
   peopleCountHistory (handlePeopleCountChange True 300000 2 full_state) =
     tl full_series @ [\<lparr>timestamp = 300000, count = 2\<rparr>]"
proof -
  have len: "length (peopleCountHistory full_state) \<le> 300"
    by (simp add: full_state_def full_series_length)
  have en: "isPeopleDetectionEnabled full_state \<and> \<not> within_jitter 300000 (peopleCountHistory full_state)"
    by (simp add: full_state_def within_jitter_def full_series_last)
  have ne: "full_series \<noteq> []" using full_series_length by auto
  from series_capacity[of "[]" full_state "PeopleCountChange True 300000 2" True 300000 2] len en
  show ?thesis
    using ne by (simp add: full_state_def full_series_length drop_Suc)
qed

text \<open>
  Claim C6. With detection on (for the callback that is called: in the render that made
  it) and a non-empty series, a count event whose instant is less than 50 away from the
  last stored sample replaces that sample with the new one (its value wins); at a
  distance of 50 or more the event is appended, and the series ends with the previous
  last sample followed by the new one.
\<close>

theorem jitter_window_dedup:
  assumes "enabledAtRender" and "peopleCountHistory s \<noteq> []"
  shows "(\<bar>now - timestamp (last (peopleCountHistory s))\<bar> < 50 \<longrightarrow>
            peopleCountHistory (handlePeopleCountChange enabledAtRender now c s) =
              butlast (peopleCountHistory s) @ [\<lparr>timestamp = now, count = c\<rparr>]) \<and>
         (50 \<le> \<bar>now - timestamp (last (peopleCountHistory s))\<bar> \<longrightarrow>
            (\<exists>older. peopleCountHistory (handlePeopleCountChange enabledAtRender now c s) =
               older @ [last (peopleCountHistory s), \<lparr>timestamp = now, count = c\<rparr>]))"
proof (intro conjI impI)
  assume "\<bar>now - timestamp (last (peopleCountHistory s))\<bar> < 50"
  then show "peopleCountHistory (handlePeopleCountChange enabledAtRender now c s) =
              butlast (peopleCountHistory s) @ [\<lparr>timestamp = now, count = c\<rparr>]"
    using assms
    by (simp add: handlePeopleCountChange_def update_history_def within_jitter_def Let_def)
next
  let ?h = "peopleCountHistory s"
  let ?p = "\<lparr>timestamp = now, count = c\<rparr>"
  assume far: "50 \<le> \<bar>now - timestamp (last ?h)\<bar>"
  then have nj: "\<not> within_jitter now ?h" by (simp add: within_jitter_def)
  have upd: "peopleCountHistory (handlePeopleCountChange enabledAtRender now c s) =
               drop (Suc (length ?h) - 300) (?h @ [?p])"
    using assms(1) nj by (simp add: handlePeopleCountChange_def Let_def update_history_append)
  have split: "?h @ [?p] = butlast ?h @ [last ?h, ?p]" using assms(2) by simp
  have len: "Suc (length ?h) - 300 \<le> length (butlast ?h)" using assms(2) by (cases ?h) auto
  have "drop (Suc (length ?h) - 300) (butlast ?h @ [last ?h, ?p]) =
          drop (Suc (length ?h) - 300) (butlast ?h) @ [last ?h, ?p]"
    using len by simp
  then show "\<exists>older. peopleCountHistory (handlePeopleCountChange enabledAtRender now c s) =
               older @ [last ?h, ?p]"
    unfolding upd split by blast
qed

lemma one_sample_state_eq:
  "one_sample_state = initial_app_state\<lparr>detectionSessionId := Session 500,
     isPeopleDetectionEnabled := True, peopleCount := 3,
     peopleCountHistory := [\<lparr>timestamp = 1000, count = 3\<rparr>]\<rparr>"
  by (simp add: one_sample_state_def app_run_def togglePeopleDetection_def
      handlePeopleCountChange_def update_history_def within_jitter_def initial_app_state_def Let_def)

theorem jitter_window_dedup_witness:
  "isPeopleDetectionEnabled one_sample_state \<and> peopleCountHistory one_sample_state \<noteq> [] \<and>
   peopleCountHistory (handlePeopleCountChange True 1049 5 one_sample_state) =
     [\<lparr>timestamp = 1049, count = 5\<rparr>] \<and>
   (\<exists>older. peopleCountHistory (handlePeopleCountChange True 1200 5 one_sample_state) =
     older @ [\<lparr>timestamp = 1000, count = 3\<rparr>, \<lparr>timestamp = 1200, count = 5\<rparr>])"
proof -
  have en: "isPeopleDetectionEnabled one_sample_state"
    by (simp add: one_sample_state_eq)
  have ne: "peopleCountHistory one_sample_state \<noteq> []"
    by (simp add: one_sample_state_eq)
  show ?thesis
    using en ne jitter_window_dedup[OF TrueI ne, of 1049 5] jitter_window_dedup[OF TrueI ne, of 1200 5]
    by (simp add: one_sample_state_eq)
qed

text \<open>
  Claim C10. Let the series of a state have consecutive samples at least 50 apart, and
  let the count events of a run arrive at non-decreasing instants, none earlier than the
  last stored sample. Then after the run (appends, replacements, evictions and resets by
  toggling or tab change) consecutive samples are still at least 50 apart, and the stored
  instants are strictly increasing. The initial state satisfies the hypotheses on the
  series.
\<close>

theorem series_spacing_invariant:
  assumes "spaced (peopleCountHistory s)"
    and "sorted (sample_times evs)"
    and "\<forall>t \<in> set (sample_times evs). stamps_upto t (peopleCountHistory s)"
  shows "spaced (peopleCountHistory (app_run evs s)) \<and>
         sorted_wrt (<) (map timestamp (peopleCountHistory (app_run evs s)))"
proof -
  have "spaced (peopleCountHistory (app_run evs s))" using assms by (rule spaced_run)
  then show ?thesis by (simp add: spaced_strictly_sorted)
qed

theorem series_spacing_invariant_witness:
  "spaced (peopleCountHistory initial_app_state) \<and>
   sorted (sample_times sample_trace) \<and>
   peopleCountHistory (app_run sample_trace initial_app_state) =
     [\<lparr>timestamp = 1000, count = 3\<rparr>, \<lparr>timestamp = 1050, count = 4\<rparr>] \<and>
   spaced (peopleCountHistory (app_run sample_trace initial_app_state)) \<and>
   sorted_wrt (<) (map timestamp (peopleCountHistory (app_run sample_trace initial_app_state)))"
proof -
  have a: "spaced (peopleCountHistory initial_app_state)"
    by (simp add: initial_app_state_def spaced_def)
  have b: "sorted (sample_times sample_trace)"
    by (simp add: sample_trace_def)
  have c: "\<forall>t \<in> set (sample_times sample_trace). stamps_upto t (peopleCountHistory initial_app_state)"
    by (simp add: initial_app_state_def stamps_upto_def)
  have d: "peopleCountHistory (app_run sample_trace initial_app_state) =
     [\<lparr>timestamp = 1000, count = 3\<rparr>, \<lparr>timestamp = 1050, count = 4\<rparr>]"
    by (simp add: sample_trace_def app_run_def togglePeopleDetection_def
      handlePeopleCountChange_def update_history_def within_jitter_def initial_app_state_def Let_def)
  show ?thesis using a b c d series_spacing_invariant[OF a b c] by simp
qed





section \<open>Connection Manager: lemmas and claims\<close>

lemma deliver_reload:
  assumes "fatal d" "etype d = NETWORK_ERROR" "response d \<noteq> Some 403" "\<not> hlsDestroyed s"
  shows "deliver_error s d = s\<lparr>startLoadCalls := startLoadCalls s + 1\<rparr>"
  using assms by (auto simp: deliver_error_def on_hls_error_def Let_def)

text \<open>
  Claim C1. The handler answers every fatal network error that is not a 403 with one more
  \<^verbatim>\<open>hls.startLoad()\<close> and nothing else: after any number of such errors in a row the
  number of reloads has grown by that number, no error is set and the decoder is alive.
  The second failure is retried like the first.
\<close>

theorem network_errors_reload_every_time:
  assumes "\<forall>d \<in> set ds. fatal d \<and> etype d = NETWORK_ERROR \<and> response d \<noteq> Some 403"
    and "\<not> hlsDestroyed s"
  shows "deliver_errors ds s = s\<lparr>startLoadCalls := startLoadCalls s + length ds\<rparr>"
  using assms
proof (induction ds arbitrary: s)
  case Nil
  then show ?case by (simp add: deliver_errors_def)
next
  case (Cons d ds)
  let ?s1 = "s\<lparr>startLoadCalls := startLoadCalls s + 1\<rparr>"
  have step: "deliver_error s d = ?s1"
    using Cons.prems by (intro deliver_reload) simp_all
  have rest: "\<forall>d \<in> set ds. fatal d \<and> etype d = NETWORK_ERROR \<and> response d \<noteq> Some 403"
    using Cons.prems(1) by simp
  have alive: "\<not> hlsDestroyed ?s1" using Cons.prems(2) by simp
  have unfold: "deliver_errors (d # ds) s = deliver_errors ds (deliver_error s d)"
    by (simp add: deliver_errors_def)
  have "deliver_errors (d # ds) s = deliver_errors ds ?s1"
    by (simp only: unfold step)
  also have "\<dots> = ?s1\<lparr>startLoadCalls := startLoadCalls ?s1 + length ds\<rparr>"
    by (rule Cons.IH[OF rest alive])
  also have "\<dots> = s\<lparr>startLoadCalls := startLoadCalls s + length (d # ds)\<rparr>"
    by simp
  finally show ?case .
qed

theorem network_errors_reload_every_time_witness:
  "\<not> hlsDestroyed attached_state \<and>
   startLoadCalls (deliver_errors [network_blip, network_blip] attached_state) = 2 \<and>
   error (deliver_errors [network_blip, network_blip] attached_state) = None \<and>
   \<not> hlsDestroyed (deliver_errors [network_blip, network_blip] attached_state)"
proof -
  have a: "\<forall>d \<in> set [network_blip, network_blip].
             fatal d \<and> etype d = NETWORK_ERROR \<and> response d \<noteq> Some 403"
    by (simp add: network_blip_def)
  have b: "\<not> hlsDestroyed attached_state" by (simp add: attached_state_def)
  have "deliver_errors [network_blip, network_blip] attached_state =
        attached_state\<lparr>startLoadCalls := startLoadCalls attached_state + length [network_blip, network_blip]\<rparr>"
    by (rule network_errors_reload_every_time[OF a b])
  then show ?thesis by (simp add: attached_state_def)
qed

lemma access_denied_result:
  assumes "fatal d" and "etype d = NETWORK_ERROR" and "response d = Some 403"
  shows "on_hls_error d s =
           s\<lparr>error := Some ''Stream Access Error'',
             errorDetails := Some ''Network error: Access denied (403 Forbidden). This stream requires authorization or is not publicly accessible.'',
             hlsDestroyed := True\<rparr>"
  using assms by (simp add: on_hls_error_def http_error_message_def)

lemma destroyed_is_final: "hlsDestroyed t \<Longrightarrow> deliver_errors later t = t"
  unfolding deliver_errors_def by (induction later) (simp_all add: deliver_error_def)

text \<open>
  Claim C2. A fatal network error with HTTP status 403 sets the error label
  \<^verbatim>\<open>Stream Access Error\<close> and the fixed access-denied detail text, which does not depend
  on the decoder's internal description; it destroys the decoder and calls neither
  \<^verbatim>\<open>startLoad\<close> nor \<^verbatim>\<open>recoverMediaError\<close>. The state is terminal: whatever the
  destroyed decoder is offered afterwards changes nothing.
\<close>

theorem access_denied_is_terminal:
  assumes "fatal d" and "etype d = NETWORK_ERROR" and "response d = Some 403"
  shows "on_hls_error d s =
           s\<lparr>error := Some ''Stream Access Error'',
             errorDetails := Some ''Network error: Access denied (403 Forbidden). This stream requires authorization or is not publicly accessible.'',
             hlsDestroyed := True\<rparr> \<and>
         startLoadCalls (on_hls_error d s) = startLoadCalls s \<and>
         recoverMediaErrorCalls (on_hls_error d s) = recoverMediaErrorCalls s \<and>
         on_hls_error (d\<lparr>details := raw\<rparr>) s = on_hls_error d s \<and>
         deliver_errors later (on_hls_error d s) = on_hls_error d s"
proof -
  note eq = access_denied_result[OF assms, of s]
  have "on_hls_error (d\<lparr>details := raw\<rparr>) s =
           s\<lparr>error := Some ''Stream Access Error'',
             errorDetails := Some ''Network error: Access denied (403 Forbidden). This stream requires authorization or is not publicly accessible.'',
             hlsDestroyed := True\<rparr>"
    using assms by (intro access_denied_result) simp_all
  then have raw: "on_hls_error (d\<lparr>details := raw\<rparr>) s = on_hls_error d s"
    using eq by simp
  have dead: "hlsDestroyed (on_hls_error d s)" unfolding eq by simp
  have final: "deliver_errors later (on_hls_error d s) = on_hls_error d s"
    using dead by (rule destroyed_is_final)
  have calls: "startLoadCalls (on_hls_error d s) = startLoadCalls s \<and>
         recoverMediaErrorCalls (on_hls_error d s) = recoverMediaErrorCalls s"
    unfolding eq by simp
  show ?thesis using eq raw final calls by blast
qed

theorem access_denied_is_terminal_witness:
  "fatal access_denied \<and> etype access_denied = NETWORK_ERROR \<and> response access_denied = Some 403 \<and>
   error (on_hls_error access_denied attached_state) = Some ''Stream Access Error'' \<and>
   hlsDestroyed (on_hls_error access_denied attached_state) \<and>
   startLoadCalls (on_hls_error access_denied attached_state) = 0 \<and>
   deliver_errors [network_blip, access_denied] (on_hls_error access_denied attached_state) =
     on_hls_error access_denied attached_state"
proof -
  have a: "fatal access_denied" and b: "etype access_denied = NETWORK_ERROR"
    and c: "response access_denied = Some 403"
    by (simp_all add: access_denied_def)
  note t = access_denied_is_terminal[OF a b c, of attached_state "''x''" "[network_blip, access_denied]"]
  note r = t[THEN conjunct1]
  have e: "error (on_hls_error access_denied attached_state) = Some ''Stream Access Error''"
    unfolding r by simp
  have d: "hlsDestroyed (on_hls_error access_denied attached_state)"
    unfolding r by simp
  have n: "startLoadCalls (on_hls_error access_denied attached_state) = 0"
    using t[THEN conjunct2, THEN conjunct1] by (simp add: attached_state_def)
  have f: "deliver_errors [network_blip, access_denied] (on_hls_error access_denied attached_state) =
     on_hls_error access_denied attached_state"
    by (rule t[THEN conjunct2, THEN conjunct2, THEN conjunct2, THEN conjunct2])
  show ?thesis
    by (intro conjI a b c e d n f)
qed

section \<open>Detection component: lemmas\<close>

lemma drawDetections_fields [simp]:
  "detections (drawDetections seen v dets s) = detections s"
  "isEnabled (drawDetections seen v dets s) = isEnabled s"
  "showOverlay (drawDetections seen v dets s) = showOverlay s"
  "canvasMounted (drawDetections seen v dets s) = canvasMounted s"
  "canvasWidth (drawDetections seen v dets s) = canvasWidth s"
  "canvasHeight (drawDetections seen v dets s) = canvasHeight s"
  "inferenceLog (drawDetections seen v dets s) = inferenceLog s"
  "reportedCounts (drawDetections seen v dets s) = reportedCounts s"
  "chains (drawDetections seen v dets s) = chains s"
  by (simp_all add: drawDetections_def)

lemma overlay_effect_fields [simp]:
  "detections (overlay_effect v s) = detections s"
  "isEnabled (overlay_effect v s) = isEnabled s"
  "showOverlay (overlay_effect v s) = showOverlay s"
  "canvasMounted (overlay_effect v s) = canvasMounted s"
  "canvasWidth (overlay_effect v s) = canvasWidth s"
  "canvasHeight (overlay_effect v s) = canvasHeight s"
  "inferenceLog (overlay_effect v s) = inferenceLog s"
  "reportedCounts (overlay_effect v s) = reportedCounts s"
  "chains (overlay_effect v s) = chains s"
  by (simp_all add: overlay_effect_def)

lemma render_dims:
  "canvasWidth s' = canvasWidth s \<Longrightarrow> canvasHeight s' = canvasHeight s \<Longrightarrow>
   render s' v dets = render s v dets"
  by (simp add: render_def)

lemma length_draw_detection: "length (draw_detection sx sy d) = 3"
  by (simp add: draw_detection_def Let_def split: prod.splits)

lemma surface_drawDetections:
  "canvasMounted s \<Longrightarrow>
   surface (drawDetections seen v dets s) = (if seen then render s v dets else [])"
  by (simp add: drawDetections_def render_def)

lemma surface_overlay_effect:
  "canvasMounted s \<Longrightarrow>
   surface (overlay_effect v s) =
     (if \<not> isEnabled s \<or> \<not> showOverlay s then []
      else if detections s \<noteq> [] then render s v (detections s)
      else surface s)"
  by (simp add: overlay_effect_def surface_drawDetections)

lemma from_people_Nil: "from_people []"
  by (simp add: from_people_def)

lemma from_people_render:
  "\<forall>d \<in> set dets. is_person d \<Longrightarrow> from_people (render s v dets)"
  unfolding from_people_def render_def by auto

lemma people_only_same:
  "people_only s \<Longrightarrow> canvasMounted s' = canvasMounted s \<Longrightarrow> detections s' = detections s \<Longrightarrow>
   surface s' = surface s \<Longrightarrow> people_only s'"
  by (simp add: people_only_def)

lemma people_only_drawDetections:
  assumes "people_only s" and "\<forall>d \<in> set dets. is_person d"
  shows "people_only (drawDetections seen v dets s)"
  using assms
  by (simp add: people_only_def surface_drawDetections from_people_Nil from_people_render)

lemma people_only_overlay_effect:
  assumes "people_only s"
  shows "people_only (overlay_effect v s)"
  using assms
  by (simp add: people_only_def surface_overlay_effect from_people_Nil from_people_render)

lemma after_detect_result:
  assumes "canvasMounted s"
  shows "detections (after_detect seen t v (Predictions predictions) s) = filter is_person predictions"
    and "reportedCounts (after_detect seen t v (Predictions predictions) s) =
           reportedCounts s @ [length (filter is_person predictions)]"
    and "surface (after_detect seen t v (Predictions predictions) s) =
           (if isEnabled s \<and> showOverlay s then render s v (filter is_person predictions) else [])"
proof -
  let ?people = "filter is_person predictions"
  let ?s2 = "s\<lparr>detections := ?people, reportedCounts := reportedCounts s @ [length ?people]\<rparr>"
  let ?s3 = "drawDetections seen v ?people ?s2"
  let ?s4 = "?s3\<lparr>resizeSeesOverlay := showOverlay ?s3\<rparr>"
  have m4: "canvasMounted ?s4" using assms by simp
  have r: "render ?s4 v ?people = render s v ?people"
    by (rule render_dims) simp_all
  have s4: "surface ?s4 = (if seen then render s v ?people else [])"
    using assms by (simp add: surface_drawDetections render_def)
  have empty: "?people = [] \<Longrightarrow> surface ?s4 = []"
    unfolding s4 by (simp add: render_def)
  have flags: "isEnabled ?s4 = isEnabled s" "showOverlay ?s4 = showOverlay s"
    "detections ?s4 = ?people"
    by simp_all
  show "detections (after_detect seen t v (Predictions predictions) s) = ?people"
    by (simp add: after_detect_def Let_def)
  show "reportedCounts (after_detect seen t v (Predictions predictions) s) =
           reportedCounts s @ [length ?people]"
    by (simp add: after_detect_def Let_def)
  have "surface (overlay_effect v ?s4) =
          (if isEnabled s \<and> showOverlay s then render s v ?people else [])"
  proof (cases "?people = []")
    case True
    then show ?thesis
      unfolding surface_overlay_effect[OF m4] flags using empty by (simp add: render_def)
  next
    case False
    then show ?thesis
      unfolding surface_overlay_effect[OF m4] flags r by simp
  qed
  then show "surface (after_detect seen t v (Predictions predictions) s) =
           (if isEnabled s \<and> showOverlay s then render s v ?people else [])"
    by (simp add: after_detect_def Let_def)
qed

lemma after_detect_mounted: "canvasMounted (after_detect seen t v r s) = canvasMounted s"
  by (cases r) (simp_all add: after_detect_def Let_def)

lemma people_only_after_detect:
  assumes "people_only s"
  shows "people_only (after_detect seen t v r s)"
proof (cases r)
  case (Predictions predictions)
  have m: "canvasMounted s" using assms by (simp add: people_only_def)
  show ?thesis
    unfolding people_only_def Predictions
    using after_detect_result[OF m, where seen=seen and t=t and v=v and predictions=predictions] m
    by (simp add: from_people_Nil from_people_render after_detect_mounted)
next
  case DetectFailed
  then show ?thesis using assms by (simp add: after_detect_def people_only_def)
qed

lemma people_only_toggle:
  assumes "people_only s"
  shows "people_only (toggle_overlay v s)"
proof -
  have "people_only (s\<lparr>showOverlay := b\<rparr>)" for b
    using assms by (simp add: people_only_def)
  then show ?thesis
    by (simp add: toggle_overlay_def showOverlay_changed_def people_only_overlay_effect)
qed

lemma people_only_resize:
  assumes "people_only s"
  shows "people_only (on_resize w h v s)"
proof -
  let ?s1 = "s\<lparr>canvasWidth := w, canvasHeight := h\<rparr>"
  have p1: "people_only ?s1" using assms by (simp add: people_only_def)
  have "people_only (drawDetections (resizeSeesOverlay s) v (detections s) ?s1)"
    using p1 assms by (intro people_only_drawDetections) (simp_all add: people_only_def)
  then show ?thesis using p1 assms by (simp add: on_resize_def Let_def people_only_def)
qed

lemma set_phase_view [simp]:
  "canvasMounted (set_phase i p s) = canvasMounted s"
  "detections (set_phase i p s) = detections s"
  "surface (set_phase i p s) = surface s"
  by (simp_all add: set_phase_def)

lemma request_frame_view [simp]:
  "canvasMounted (request_frame i s) = canvasMounted s"
  "detections (request_frame i s) = detections s"
  "surface (request_frame i s) = surface s"
  by (simp_all add: request_frame_def)

lemma cancel_frame_view [simp]:
  "canvasMounted (cancel_frame s) = canvasMounted s"
  "detections (cancel_frame s) = detections s"
  "surface (cancel_frame s) = surface s"
  by (simp_all add: cancel_frame_def split: option.splits)

lemma detectPeople_view [simp]:
  "canvasMounted (detectPeople i t v s) = canvasMounted s"
  "detections (detectPeople i t v s) = detections s"
  "surface (detectPeople i t v s) = surface s"
  by (simp_all add: detectPeople_def)

lemma detection_effect_view [simp]:
  "canvasMounted (detection_effect t v s) = canvasMounted s"
  "detections (detection_effect t v s) = detections s"
  "surface (detection_effect t v s) = surface s"
  by (simp_all add: detection_effect_def)

lemma init_view [simp]:
  "canvasMounted (initTensorFlowAndLoadModel attempt s) = canvasMounted s"
  "detections (initTensorFlowAndLoadModel attempt s) = detections s"
  "surface (initTensorFlowAndLoadModel attempt s) = surface s"
  by (simp_all add: initTensorFlowAndLoadModel_def Let_def split: load_outcome.splits)

lemma people_only_isEnabled_changed:
  assumes "people_only s"
  shows "people_only (isEnabled_changed t v b s)"
proof (cases "b = isEnabled s")
  case True
  then show ?thesis using assms by (simp add: isEnabled_changed_def)
next
  case False
  have step: "people_only (overlay_effect v (detection_effect t v u))"
    if "canvasMounted u = canvasMounted s" "detections u = detections s" "surface u = surface s"
    for u
  proof -
    have "people_only (detection_effect t v u)"
      by (rule people_only_same[OF assms]) (simp_all only: detection_effect_view that)
    then show ?thesis by (rule people_only_overlay_effect)
  qed
  show ?thesis
  proof (cases b)
    case True
    have off: "\<not> isEnabled s" using False True by simp
    have eq: "isEnabled_changed t v True s =
        overlay_effect v (detection_effect t v
          ((cancel_frame (s\<lparr>isEnabled := True\<rparr>))
             \<lparr>isLoading := True, modelLoadError := None, loadPending := True\<rparr>))"
      using off by (simp add: isEnabled_changed_def Let_def)
    have bt: "b = True" using True by simp
    show ?thesis unfolding bt eq by (rule step) simp_all
  next
    case nb: False
    have on: "isEnabled s" using False nb by simp
    have eq: "isEnabled_changed t v False s =
        overlay_effect v (detection_effect t v
          ((cancel_frame (s\<lparr>isEnabled := False\<rparr>))\<lparr>loadPending := False\<rparr>))"
      using on by (simp add: isEnabled_changed_def Let_def)
    have bf: "b = False" using nb by simp
    show ?thesis unfolding bf eq by (rule step) simp_all
  qed
qed

lemma people_only_load_settled:
  assumes "people_only s"
  shows "people_only (load_settled t v attempt s)"
proof -
  let ?s1 = "(initTensorFlowAndLoadModel attempt s)\<lparr>loadPending := False\<rparr>"
  have a: "people_only ?s1" using assms by (rule people_only_same) simp_all
  have b: "people_only (detection_effect t v (cancel_frame ?s1))"
    using assms by (rule people_only_same) simp_all
  show ?thesis using assms a b by (simp add: load_settled_def Let_def)
qed

lemma people_only_step:
  assumes "people_only s"
  shows "people_only (pd_step s e)"
proof (cases e)
  case (EnabledChanged t v b)
  then show ?thesis using assms by (simp add: people_only_isEnabled_changed)
next
  case (LoadSettled t v attempt)
  then show ?thesis using assms by (simp add: people_only_load_settled)
next
  case (FrameFired t i v)
  have "people_only (detectPeople i t v s)" using assms by (rule people_only_same) simp_all
  then show ?thesis using assms FrameFired by (simp split: loop_phase.splits)
next
  case (DetectSettled t i v r)
  have "people_only (after_detect (seenOverlay (chains s ! i)) t v r s)"
    using assms by (rule people_only_after_detect)
  then have "people_only (set_phase i (TimerPending (t + 500))
      (after_detect (seenOverlay (chains s ! i)) t v r s))"
    by (rule people_only_same) simp_all
  then show ?thesis using assms DetectSettled by simp
next
  case (TimerFired t i)
  have "people_only (request_frame i s)" using assms by (rule people_only_same) simp_all
  then show ?thesis using assms TimerFired by (simp split: loop_phase.splits)
next
  case (OverlayToggled t v)
  then show ?thesis using assms by (simp add: people_only_toggle)
next
  case (Resized t w h v)
  then show ?thesis using assms by (simp add: people_only_resize)
qed

lemma people_only_run:
  "people_only s \<Longrightarrow> people_only (pd_run evs s)"
  unfolding pd_run_def by (induction evs arbitrary: s) (simp_all add: people_only_step)

subsection \<open>The sample runs, evaluated\<close>

lemmas pd_eval =
  pd_run_def isEnabled_changed_def load_settled_def detection_effect_def detectPeople_def
  cancel_frame_def request_frame_def set_phase_def phase_of_def after_detect_def
  overlay_effect_def drawDetections_def toggle_overlay_def showOverlay_changed_def on_resize_def
  initTensorFlowAndLoadModel_def sets_model_def render_def is_playing_def is_person_def
  all_backends_load_def no_backend_loads_def or_default_def
  playing_video_def a_person_def a_dog_def a_faint_person_def
  mounted_pd_state_def Let_def

lemma pd_run_append: "pd_run (xs @ ys) s = pd_run ys (pd_run xs s)"
  by (simp add: pd_run_def)

lemma watching_state_eq:
  "watching_state =
     \<lparr>model = Some WebGL, detections = [a_person], isLoading = False, modelLoadError = None,
      isEnabled = True, showOverlay = True, canvasMounted = True,
      canvasWidth = 640, canvasHeight = 360,
      surface = draw_detection (1 / 2) (1 / 2) a_person,
      loadPending = False, loadLog = [WebGL], resizeSeesOverlay = True,
      requestRef = None, nextHandle = 1,
      chains = [\<lparr>tick_phase = TimerPending 1400, seenOverlay = True\<rparr>],
      inferenceLog = [Called 800, Settled 900], reportedCounts = [1]\<rparr>"
  by (simp add: watching_state_def first_ticks_def pd_eval)

lemma off_state_eq:
  "pd_run off_ticks watching_state =
     \<lparr>model = Some WebGL, detections = [a_person], isLoading = False, modelLoadError = None,
      isEnabled = False, showOverlay = True, canvasMounted = True,
      canvasWidth = 640, canvasHeight = 360,
      surface = [],
      loadPending = False, loadLog = [WebGL], resizeSeesOverlay = True,
      requestRef = Some 1, nextHandle = 2,
      chains = [\<lparr>tick_phase = TimerPending 1980, seenOverlay = True\<rparr>],
      inferenceLog = [Called 800, Settled 900, Called 1416, Settled 1480],
      reportedCounts = [1, 1]\<rparr>"
  by (simp only: watching_state_eq) (simp add: off_ticks_def pd_eval)

lemma reenabled_state_eq:
  "pd_run reenabled_ticks (pd_run off_ticks watching_state) =
     \<lparr>model = Some WebGL, detections = [a_person], isLoading = False, modelLoadError = None,
      isEnabled = True, showOverlay = True, canvasMounted = True,
      canvasWidth = 640, canvasHeight = 360,
      surface = draw_detection (1 / 2) (1 / 2) a_person,
      loadPending = False, loadLog = [WebGL, WebGL], resizeSeesOverlay = True,
      requestRef = None, nextHandle = 2,
      chains = [\<lparr>tick_phase = TimerPending 1980, seenOverlay = True\<rparr>,
                \<lparr>tick_phase = Inferring, seenOverlay = True\<rparr>,
                \<lparr>tick_phase = Inferring, seenOverlay = True\<rparr>],
      inferenceLog = [Called 800, Settled 900, Called 1416, Settled 1480, Called 1500, Called 1550],
      reportedCounts = [1, 1]\<rparr>"
  by (simp only: off_state_eq) (simp add: reenabled_ticks_def pd_eval)

lemma reenabled_failing_state_eq:
  "pd_run reenabled_failing_ticks (pd_run off_ticks watching_state) =
     \<lparr>model = Some WebGL, detections = [a_person], isLoading = False,
      modelLoadError = Some ''WebGL is not supported on this device'',
      isEnabled = True, showOverlay = True, canvasMounted = True,
      canvasWidth = 640, canvasHeight = 360,
      surface = draw_detection (1 / 2) (1 / 2) a_person,
      loadPending = False, loadLog = [WebGL, WebGL, CPU], resizeSeesOverlay = True,
      requestRef = None, nextHandle = 2,
      chains = [\<lparr>tick_phase = TimerPending 1980, seenOverlay = True\<rparr>,
                \<lparr>tick_phase = Inferring, seenOverlay = True\<rparr>],
      inferenceLog = [Called 800, Settled 900, Called 1416, Settled 1480, Called 1500],
      reportedCounts = [1, 1]\<rparr>"
  by (simp only: off_state_eq) (simp add: reenabled_failing_ticks_def pd_eval)

lemma overlay_off_state_eq:
  "pd_run overlay_off_ticks watching_state = watching_state\<lparr>showOverlay := False, surface := []\<rparr>"
  by (simp only: watching_state_eq) (simp add: overlay_off_ticks_def pd_eval)

lemma overlay_off_resize_state_eq:
  "pd_run overlay_off_resize_ticks watching_state =
     watching_state\<lparr>showOverlay := False, canvasWidth := 320, canvasHeight := 180,
       surface := draw_detection (1 / 4) (1 / 4) a_person\<rparr>"
  by (simp only: watching_state_eq) (simp add: overlay_off_resize_ticks_def pd_eval)

lemma overlay_off_on_state_eq:
  "pd_run overlay_off_on_ticks watching_state = watching_state"
  by (simp only: watching_state_eq) (simp add: overlay_off_on_ticks_def pd_eval)


lemma run_from_mount: "pd_run first_ticks mounted_pd_state = watching_state"
  by (simp add: watching_state_def)

lemma run_off:
  "pd_run (first_ticks @ off_ticks) mounted_pd_state =
     \<lparr>model = Some WebGL, detections = [a_person], isLoading = False, modelLoadError = None,
      isEnabled = False, showOverlay = True, canvasMounted = True,
      canvasWidth = 640, canvasHeight = 360,
      surface = [],
      loadPending = False, loadLog = [WebGL], resizeSeesOverlay = True,
      requestRef = Some 1, nextHandle = 2,
      chains = [\<lparr>tick_phase = TimerPending 1980, seenOverlay = True\<rparr>],
      inferenceLog = [Called 800, Settled 900, Called 1416, Settled 1480],
      reportedCounts = [1, 1]\<rparr>"
  unfolding pd_run_append run_from_mount by (rule off_state_eq)

lemma run_reenabled:
  "pd_run (first_ticks @ off_ticks @ reenabled_ticks) mounted_pd_state =
     \<lparr>model = Some WebGL, detections = [a_person], isLoading = False, modelLoadError = None,
      isEnabled = True, showOverlay = True, canvasMounted = True,
      canvasWidth = 640, canvasHeight = 360,
      surface = draw_detection (1 / 2) (1 / 2) a_person,
      loadPending = False, loadLog = [WebGL, WebGL], resizeSeesOverlay = True,
      requestRef = None, nextHandle = 2,
      chains = [\<lparr>tick_phase = TimerPending 1980, seenOverlay = True\<rparr>,
                \<lparr>tick_phase = Inferring, seenOverlay = True\<rparr>,
                \<lparr>tick_phase = Inferring, seenOverlay = True\<rparr>],
      inferenceLog = [Called 800, Settled 900, Called 1416, Settled 1480, Called 1500, Called 1550],
      reportedCounts = [1, 1]\<rparr>"
  unfolding pd_run_append run_from_mount by (rule reenabled_state_eq)

lemma run_reenabled_failing:
  "pd_run (first_ticks @ off_ticks @ reenabled_failing_ticks) mounted_pd_state =
     \<lparr>model = Some WebGL, detections = [a_person], isLoading = False,
      modelLoadError = Some ''WebGL is not supported on this device'',
      isEnabled = True, showOverlay = True, canvasMounted = True,
      canvasWidth = 640, canvasHeight = 360,
      surface = draw_detection (1 / 2) (1 / 2) a_person,
      loadPending = False, loadLog = [WebGL, WebGL, CPU], resizeSeesOverlay = True,
      requestRef = None, nextHandle = 2,
      chains = [\<lparr>tick_phase = TimerPending 1980, seenOverlay = True\<rparr>,
                \<lparr>tick_phase = Inferring, seenOverlay = True\<rparr>],
      inferenceLog = [Called 800, Settled 900, Called 1416, Settled 1480, Called 1500],
      reportedCounts = [1, 1]\<rparr>"
  unfolding pd_run_append run_from_mount by (rule reenabled_failing_state_eq)

section \<open>Detection component: claims\<close>

text \<open>
  Claim C4 holds for the first load and fails afterwards. Detection is turned on, the
  model loads on WebGL, detection is turned off and on again: with the model of the first
  load resident, a second load runs on WebGL. When that second load fails on WebGL, goes on
  to CPU and fails there too, the load error is set while the model of the first
  load stays resident, and the detection effect has started a chain of ticks on it that
  awaits a call of the model.
\<close>

theorem reenabling_loads_again:
  "model (pd_run (first_ticks @ off_ticks) mounted_pd_state) = Some WebGL \<and>
   loadLog (pd_run (first_ticks @ off_ticks) mounted_pd_state) = [WebGL] \<and>
   loadLog (pd_run (first_ticks @ off_ticks @ reenabled_ticks) mounted_pd_state) = [WebGL, WebGL] \<and>
   loadLog (pd_run (first_ticks @ off_ticks @ reenabled_failing_ticks) mounted_pd_state) =
     [WebGL, WebGL, CPU] \<and>
   modelLoadError (pd_run (first_ticks @ off_ticks @ reenabled_failing_ticks) mounted_pd_state) =
     Some ''WebGL is not supported on this device'' \<and>
   model (pd_run (first_ticks @ off_ticks @ reenabled_failing_ticks) mounted_pd_state) = Some WebGL \<and>
   map tick_phase
     (chains (pd_run (first_ticks @ off_ticks @ reenabled_failing_ticks) mounted_pd_state)) =
     [TimerPending 1980, Inferring]"
  unfolding run_off run_reenabled run_reenabled_failing
  by simp

text \<open>
  Claim C9 fails on the code when the video element is resized while the overlay is off.
  With detection on and one person painted, toggling the overlay off clears the canvas;
  the callback of the resize observer then paints the person again, at the new scale,
  because it tests the overlay flag of the render in which the detections last changed:
  the canvas is not blank while the overlay is off. Toggling the overlay off and on
  again, with nothing in between, paints the person as before.
\<close>

theorem resize_paints_while_overlay_is_off:
  "isEnabled watching_state \<and> showOverlay watching_state \<and>
   detections watching_state = [a_person] \<and>
   surface watching_state = draw_detection (1 / 2) (1 / 2) a_person \<and>
   \<not> showOverlay (pd_run overlay_off_ticks watching_state) \<and>
   surface (pd_run overlay_off_ticks watching_state) = [] \<and>
   \<not> showOverlay (pd_run overlay_off_resize_ticks watching_state) \<and>
   surface (pd_run overlay_off_resize_ticks watching_state) =
     draw_detection (1 / 4) (1 / 4) a_person \<and>
   length (surface (pd_run overlay_off_resize_ticks watching_state)) = 3 \<and>
   showOverlay (pd_run overlay_off_on_ticks watching_state) \<and>
   surface (pd_run overlay_off_on_ticks watching_state) = draw_detection (1 / 2) (1 / 2) a_person"
  unfolding overlay_off_state_eq overlay_off_resize_state_eq overlay_off_on_state_eq
  by (simp add: watching_state_eq length_draw_detection)

text \<open>
  Claim C8. When a call of the model settles with predictions, the component keeps
  exactly the predictions of class \<^verbatim>\<open>person\<close> with a score above 0.5, in their order:
  they are the new detection set, their number is the count passed to the count listener,
  and the canvas holds their paint calls and no others (or nothing, when the overlay is
  off), whichever render the chain of the tick belongs to. A prediction of another class,
  or with a score of 0.5 or less, is not in the detection set. Throughout any run of the
  component, every detection of the state has passed the filter and every paint call on
  the canvas is a paint call of a detection that has passed it.
\<close>

theorem only_people_above_threshold_pass:
  assumes "canvasMounted s"
  shows "detections (after_detect seen t v (Predictions predictions) s) = filter is_person predictions \<and>
         reportedCounts (after_detect seen t v (Predictions predictions) s) =
           reportedCounts s @ [length (filter is_person predictions)] \<and>
         surface (after_detect seen t v (Predictions predictions) s) =
           (if isEnabled s \<and> showOverlay s then render s v (filter is_person predictions) else []) \<and>
         (\<forall>d \<in> set predictions. class_name d \<noteq> ''person'' \<or> score d \<le> 0.5 \<longrightarrow>
            d \<notin> set (detections (after_detect seen t v (Predictions predictions) s))) \<and>
         (\<forall>d \<in> set (detections (after_detect seen t v (Predictions predictions) s)).
            class_name d = ''person'' \<and> score d > 0.5) \<and>
         (people_only s \<longrightarrow> people_only (pd_run evs s))"
proof -
  note r = after_detect_result[OF assms, where seen=seen and t=t and v=v and predictions=predictions]
  have a: "\<forall>d \<in> set predictions. class_name d \<noteq> ''person'' \<or> score d \<le> 0.5 \<longrightarrow>
            d \<notin> set (detections (after_detect seen t v (Predictions predictions) s))"
    unfolding r(1) by (auto simp: is_person_def)
  have b: "\<forall>d \<in> set (detections (after_detect seen t v (Predictions predictions) s)).
            class_name d = ''person'' \<and> score d > 0.5"
    unfolding r(1) by (auto simp: is_person_def)
  show ?thesis using r(1,2,3) a b people_only_run by blast
qed

theorem only_people_above_threshold_pass_witness:
  "canvasMounted watching_state \<and> people_only watching_state \<and>
   detections (after_detect True 2000 playing_video (Predictions [a_dog, a_person, a_faint_person, a_person])
      watching_state) = [a_person, a_person] \<and>
   reportedCounts (after_detect True 2000 playing_video (Predictions [a_dog, a_person, a_faint_person, a_person])
      watching_state) = [1, 2] \<and>
   surface (after_detect True 2000 playing_video (Predictions [a_dog, a_person, a_faint_person, a_person])
      watching_state) = render watching_state playing_video [a_person, a_person] \<and>
   a_dog \<notin> set (detections (after_detect True 2000 playing_video
      (Predictions [a_dog, a_person, a_faint_person, a_person]) watching_state)) \<and>
   a_faint_person \<notin> set (detections (after_detect True 2000 playing_video
      (Predictions [a_dog, a_person, a_faint_person, a_person]) watching_state)) \<and>
   people_only (pd_run (off_ticks @ reenabled_ticks) watching_state)"
proof -
  let ?preds = "[a_dog, a_person, a_faint_person, a_person]"
  have m: "canvasMounted watching_state" and e: "isEnabled watching_state \<and> showOverlay watching_state"
    and rc: "reportedCounts watching_state = [1]"
    by (simp_all add: watching_state_eq)
  have p: "is_person a_person" "\<not> is_person a_dog" "\<not> is_person a_faint_person"
    by (simp_all add: is_person_def a_person_def a_dog_def a_faint_person_def)
  have f: "filter is_person ?preds = [a_person, a_person]" using p by simp
  have "from_people (draw_detection (1 / 2) (1 / 2) a_person)"
    unfolding from_people_def using p(1) by blast
  then have po: "people_only watching_state"
    unfolding people_only_def using p(1) by (simp add: watching_state_eq)
  note w = only_people_above_threshold_pass[OF m, where seen=True and t=2000 and v=playing_video
      and predictions="?preds" and evs="off_ticks @ reenabled_ticks"]
  have 1: "detections (after_detect True 2000 playing_video (Predictions ?preds) watching_state) =
             [a_person, a_person]"
    using w f by simp
  have 2: "reportedCounts (after_detect True 2000 playing_video (Predictions ?preds) watching_state) = [1, 2]"
    using w f rc by simp
  have 3: "surface (after_detect True 2000 playing_video (Predictions ?preds) watching_state) =
             render watching_state playing_video [a_person, a_person]"
    using w f e by simp
  have ball: "\<forall>d \<in> set ?preds. class_name d \<noteq> ''person'' \<or> score d \<le> 0.5 \<longrightarrow>
            d \<notin> set (detections (after_detect True 2000 playing_video (Predictions ?preds) watching_state))"
    using w by blast
  have dog: "a_dog \<in> set ?preds" "class_name a_dog \<noteq> ''person'' \<or> score a_dog \<le> 0.5"
    by (simp_all add: a_dog_def)
  have faint: "a_faint_person \<in> set ?preds"
    "class_name a_faint_person \<noteq> ''person'' \<or> score a_faint_person \<le> 0.5"
    by (simp_all add: a_faint_person_def)
  have 4: "a_dog \<notin> set (detections (after_detect True 2000 playing_video (Predictions ?preds) watching_state))"
    using ball dog by blast
  have 5: "a_faint_person \<notin> set (detections (after_detect True 2000 playing_video (Predictions ?preds) watching_state))"
    using ball faint by blast
  have 6: "people_only (pd_run (off_ticks @ reenabled_ticks) watching_state)"
    using w po by blast
  show ?thesis by (intro conjI m po 1 2 3 4 5 6)
qed

text \<open>
  Claim C7 fails on the code once detection is turned on a second time. The cleanup of
  the detection effect cancels a requested animation frame only, so the chain of the
  first session, whose timer runs when detection is turned off at 1000, goes on: it calls
  the model at 1416 with detection off. Turning detection on at 1500 starts a second
  chain, which calls the model at 1500, 20 after the last settlement; the load that this
  started sets a new model at 1550, the detection effect runs again and a third chain
  calls the model at 1550, before the call of 1500 has settled. Two calls are
  outstanding and the record of calls is not single flight.
\<close>

theorem reenabling_overlaps_inference_calls:
  "\<not> isEnabled (pd_run (first_ticks @ off_ticks) mounted_pd_state) \<and>
   inferenceLog (pd_run (first_ticks @ off_ticks) mounted_pd_state) =
     [Called 800, Settled 900, Called 1416, Settled 1480] \<and>
   map tick_phase (chains (pd_run (first_ticks @ off_ticks) mounted_pd_state)) =
     [TimerPending 1980] \<and>
   inferenceLog (pd_run (first_ticks @ off_ticks @ reenabled_ticks) mounted_pd_state) =
     [Called 800, Settled 900, Called 1416, Settled 1480, Called 1500, Called 1550] \<and>
   map tick_phase (chains (pd_run (first_ticks @ off_ticks @ reenabled_ticks) mounted_pd_state)) =
     [TimerPending 1980, Inferring, Inferring] \<and>
   outstanding (inferenceLog (pd_run (first_ticks @ off_ticks @ reenabled_ticks) mounted_pd_state)) = 2 \<and>
   \<not> single_flight (inferenceLog (pd_run (first_ticks @ off_ticks @ reenabled_ticks) mounted_pd_state))"
  unfolding run_off run_reenabled
  by (simp add: outstanding_def single_flight_def)

end
